theory Spec2Isabelle
  imports Main
begin

section \<open>JavaScript values read by the streaming component\<close>

text \<open>
  The component \<open>HttpStreamingTranscription\<close> of \<open>web/app/page.tsx\<close> reads the value
  returned by \<open>JSON.parse(line)\<close> through the properties \<open>status\<close>, \<open>message\<close>,
  \<open>result\<close> and \<open>result.text\<close>, and stores what it finds with \<open>setError\<close> and
  \<open>setTranscription\<close>. The value is untyped (\<open>any\<close>), so the model keeps every shape a
  JSON document can have, plus \<open>undefined\<close> for a property that is absent.
  Numbers are kept as integers: the component only ever tests a number for truthiness.
\<close>

datatype js =
    Undefined
  | Null
  | Bool bool
  | Num int
  | Str string
  | Arr "js list"
  | Obj "(string \<times> js) list"

text \<open>
  Property read \<open>v.k\<close> on a value that is neither \<open>null\<close> nor \<open>undefined\<close>, for the four
  keys the component uses. An object built by \<open>JSON.parse\<close> keeps the last of several
  members with the same key; strings, numbers, booleans and arrays have none of the four
  keys. Reading a property of \<open>null\<close> or \<open>undefined\<close> throws a TypeError: the callers
  test for that case before they call \<open>js_prop\<close>.
\<close>

fun js_prop :: "js \<Rightarrow> string \<Rightarrow> js" where
  "js_prop (Obj kvs) k = (case map_of (rev kvs) k of None \<Rightarrow> Undefined | Some v \<Rightarrow> v)"
| "js_prop v k = Undefined"

text \<open>JavaScript truthiness, as used by \<open>&&\<close> and \<open>||\<close>.\<close>

fun truthy :: "js \<Rightarrow> bool" where
  "truthy Undefined = False"
| "truthy Null = False"
| "truthy (Bool b) = b"
| "truthy (Num n) = (n \<noteq> 0)"
| "truthy (Str s) = (s \<noteq> [])"
| "truthy (Arr xs) = True"
| "truthy (Obj kvs) = True"

text \<open>A thrown value, and the message the \<open>catch\<close> blocks make of it:
  \<open>err instanceof Error ? err.message : "An unknown error occurred"\<close>.\<close>

datatype thrown = ErrorObj string | NotAnError

fun message_of :: "thrown \<Rightarrow> string" where
  "message_of (ErrorObj m) = m"
| "message_of NotAnError = ''An unknown error occurred''"

section \<open>An executable JSON parser for concrete inputs\<close>

text \<open>
  \<open>JSON.parse\<close> belongs to the host, not to the repository: the decoder below takes it as
  a parameter \<open>parse\<close>, where \<open>None\<close> stands for the SyntaxError it throws, and every
  general theorem holds for every \<open>parse\<close>. To run the decoder on concrete response
  bodies, \<open>JSON_parse\<close> implements the fragment of the JSON grammar those bodies use:
  objects, arrays, strings without escape sequences, integers, \<open>true\<close>, \<open>false\<close>,
  \<open>null\<close> and white space. Outside that fragment (escapes, fractions, exponents) it
  answers \<open>None\<close>; no such input is evaluated in this theory.
\<close>

definition NL :: char where
  "NL = CHR 0x0A"

definition DQ :: char where
  "DQ = CHR 0x22"

definition is_json_ws :: "char \<Rightarrow> bool" where
  "is_json_ws c = (c = CHR 0x20 \<or> c = CHR 0x09 \<or> c = CHR 0x0A \<or> c = CHR 0x0D)"

definition is_digit :: "char \<Rightarrow> bool" where
  "is_digit c = (48 \<le> (of_char c :: nat) \<and> (of_char c :: nat) \<le> 57)"

fun digits_value :: "nat \<Rightarrow> string \<Rightarrow> nat" where
  "digits_value acc [] = acc"
| "digits_value acc (c # cs) = digits_value (10 * acc + ((of_char c :: nat) - 48)) cs"

text \<open>The characters of a string literal after its opening quote, up to the closing one.\<close>

fun parse_chars :: "string \<Rightarrow> (string \<times> string) option" where
  "parse_chars [] = None"
| "parse_chars (c # cs) =
     (if c = DQ then Some ([], cs)
      else if c = CHR 0x5C \<or> (of_char c :: nat) < 32 then None
      else (case parse_chars cs of
              None \<Rightarrow> None
            | Some (s, r) \<Rightarrow> Some (c # s, r)))"

text \<open>An integer literal: an optional minus sign, then \<open>0\<close> or a digit string without a
  leading zero, not followed by a fraction or an exponent.\<close>

definition parse_number :: "string \<Rightarrow> (js \<times> string) option" where
  "parse_number s =
     (let neg = (s \<noteq> [] \<and> hd s = CHR ''-'');
          t = (if neg then tl s else s);
          ds = takeWhile is_digit t;
          r = dropWhile is_digit t
      in if ds = [] then None
         else if hd ds = CHR ''0'' \<and> tl ds \<noteq> [] then None
         else if r \<noteq> [] \<and> (hd r = CHR ''.'' \<or> hd r = CHR ''e'' \<or> hd r = CHR ''E'') then None
         else Some (Num (if neg then - int (digits_value 0 ds) else int (digits_value 0 ds)), r))"

fun parse_value :: "nat \<Rightarrow> string \<Rightarrow> (js \<times> string) option"
  and parse_members :: "nat \<Rightarrow> (string \<times> js) list \<Rightarrow> string \<Rightarrow> (js \<times> string) option"
  and parse_elements :: "nat \<Rightarrow> js list \<Rightarrow> string \<Rightarrow> (js \<times> string) option"
where
  "parse_value 0 s = None"
| "parse_value (Suc n) s =
     (case dropWhile is_json_ws s of
        [] \<Rightarrow> None
      | c # r \<Rightarrow>
          if c = CHR ''{'' then
            (case dropWhile is_json_ws r of
               [] \<Rightarrow> None
             | d # r' \<Rightarrow> if d = CHR ''}'' then Some (Obj [], r') else parse_members n [] (d # r'))
          else if c = CHR ''['' then
            (case dropWhile is_json_ws r of
               [] \<Rightarrow> None
             | d # r' \<Rightarrow> if d = CHR '']'' then Some (Arr [], r') else parse_elements n [] (d # r'))
          else if c = DQ then
            (case parse_chars r of
               None \<Rightarrow> None
             | Some (str, r') \<Rightarrow> Some (Str str, r'))
          else if take 4 (c # r) = ''true'' then Some (Bool True, drop 4 (c # r))
          else if take 5 (c # r) = ''false'' then Some (Bool False, drop 5 (c # r))
          else if take 4 (c # r) = ''null'' then Some (Null, drop 4 (c # r))
          else parse_number (c # r))"
| "parse_members 0 acc s = None"
| "parse_members (Suc n) acc s =
     (case s of
        [] \<Rightarrow> None
      | c # r \<Rightarrow>
          if c \<noteq> DQ then None
          else (case parse_chars r of
                  None \<Rightarrow> None
                | Some (k, r1) \<Rightarrow>
                    (case dropWhile is_json_ws r1 of
                       [] \<Rightarrow> None
                     | e # r2 \<Rightarrow>
                         if e \<noteq> CHR '':'' then None
                         else (case parse_value n r2 of
                                 None \<Rightarrow> None
                               | Some (v, r3) \<Rightarrow>
                                   (case dropWhile is_json_ws r3 of
                                      [] \<Rightarrow> None
                                    | f # r4 \<Rightarrow>
                                        if f = CHR '','' then
                                          parse_members n (acc @ [(k, v)]) (dropWhile is_json_ws r4)
                                        else if f = CHR ''}'' then Some (Obj (acc @ [(k, v)]), r4)
                                        else None)))))"
| "parse_elements 0 acc s = None"
| "parse_elements (Suc n) acc s =
     (case parse_value n s of
        None \<Rightarrow> None
      | Some (v, r) \<Rightarrow>
          (case dropWhile is_json_ws r of
             [] \<Rightarrow> None
           | f # r1 \<Rightarrow>
               if f = CHR '','' then parse_elements n (acc @ [v]) r1
               else if f = CHR '']'' then Some (Arr (acc @ [v]), r1)
               else None))"

definition JSON_parse :: "string \<Rightarrow> js option" where
  "JSON_parse s =
     (case parse_value (Suc (length s)) s of
        None \<Rightarrow> None
      | Some (v, r) \<Rightarrow> if dropWhile is_json_ws r = [] then Some v else None)"

section \<open>The frame decoder: lines 541 to 569 of \<open>web/app/page.tsx\<close>\<close>

text \<open>\<open>chunk.split("\n")\<close>: the pieces between newlines; a text without a newline is one
  piece, and a text ending in a newline has a last, empty piece.\<close>

fun split_nl :: "string \<Rightarrow> string list" where
  "split_nl [] = [[]]"
| "split_nl (c # cs) =
     (if c = NL then [] # split_nl cs
      else (case split_nl cs of
              [] \<Rightarrow> [[c]]
            | l # ls \<Rightarrow> (c # l) # ls))"

text \<open>\<open>line.trim()\<close> removes white space and line terminators at both ends. The model has
  the ones of the ASCII range; a line made only of others would go on to \<open>JSON.parse\<close>,
  which rejects it, so that the outcome is the same.\<close>

definition is_space :: "char \<Rightarrow> bool" where
  "is_space c = (c = CHR 0x20 \<or> c = CHR 0x09 \<or> c = CHR 0x0A \<or> c = CHR 0x0B
                 \<or> c = CHR 0x0C \<or> c = CHR 0x0D)"

definition trim :: "string \<Rightarrow> string" where
  "trim s = rev (dropWhile is_space (rev (dropWhile is_space s)))"

text \<open>\<open>chunk.split("\n").filter((line) => line.trim())\<close>\<close>

definition lines_of :: "string \<Rightarrow> string list" where
  "lines_of chunk = filter (\<lambda>line. trim line \<noteq> []) (split_nl chunk)"

section \<open>The component's state\<close>

text \<open>
  \<open>processAudioChunks\<close> is made by \<open>useCallback\<close> with \<open>isRecording\<close> among its
  dependencies: a render whose \<open>isRecording\<close> differs from the one before makes a new
  function value, which binds the \<open>isRecording\<close> of its own render. A \<open>callback\<close> is such
  a function value: the boolean is the \<open>isRecording\<close> it reads in its \<open>catch\<close> block. The
  audio chunks are read through a ref, and so are the current ones whichever function
  value reads them.
\<close>

datatype callback = ProcessAudioChunks bool

datatype recorder_state = Inactive | Recording

record media_recorder =
  rec_state :: recorder_state
  tracks_live :: bool
  onstop :: callback

text \<open>
  An invocation of \<open>processAudioChunks\<close> that has called \<open>fetch\<close> is suspended at an
  \<open>await\<close>: first for the response, then for each \<open>reader.read()\<close>. \<open>awaited\<close> tells that
  the invocation was made by \<open>mediaRecorder.onstop\<close>, which awaits it inside
  \<open>try { ... } finally { setStatus("idle") }\<close>; the interval's invocations are not awaited.
  The position of an invocation in the list \<open>requests\<close> is its issue order.
\<close>

datatype phase = Fetching | Reading | Settled

record request =
  closure :: callback
  awaited :: bool
  phase :: phase

text \<open>
  The first nine fields are the component's own: its six \<open>useState\<close> values and its three
  refs. \<open>mediaRecorderRef\<close> holds a \<open>MediaRecorder\<close> object, given by its position in
  \<open>recorders\<close>; \<open>processingIntervalRef\<close> holds the id that \<open>setInterval\<close> returned.

  The other fields are what the host holds for the component: the calls of
  \<open>getUserMedia\<close> that have not settled, each with the \<open>processAudioChunks\<close> that the
  suspended \<open>startRecording\<close> refers to; every \<open>MediaRecorder\<close> made so far; the
  intervals that are armed, by id, with the \<open>processAudioChunks\<close> each one calls; the next
  id \<open>setInterval\<close> will return (ids are positive); the \<open>stop\<close> events queued, each with
  the \<open>processAudioChunks\<close> of its recorder's handler; the number of pending timeouts set
  by \<open>stopRecording\<close>; and the invocations of \<open>processAudioChunks\<close> that have called
  \<open>fetch\<close>.
\<close>

record component =
  isRecording :: bool
  isStreaming :: bool
  transcription :: js
  error :: js
  status :: string
  audioBlob :: "string option"
  mediaRecorderRef :: "nat option"
  audioChunksRef :: "string list"
  processingIntervalRef :: "nat option"
  getUserMedia_pending :: "callback list"
  recorders :: "media_recorder list"
  intervals :: "(nat \<times> callback) list"
  next_interval :: nat
  stop_events :: "callback list"
  idle_timeouts :: nat
  requests :: "request list"

text \<open>The state of a freshly mounted component: the initial values of \<open>useState\<close> and
  \<open>useRef\<close>, nothing held by the host, no request issued.\<close>

definition initial :: component where
  "initial = \<lparr> isRecording = False, isStreaming = False, transcription = Str [],
               error = Null, status = ''idle'', audioBlob = None,
               mediaRecorderRef = None, audioChunksRef = [],
               processingIntervalRef = None, getUserMedia_pending = [], recorders = [],
               intervals = [], next_interval = 1, stop_events = [], idle_timeouts = 0,
               requests = [] \<rparr>"

section \<open>Applying the lines of one read\<close>

text \<open>
  The body of \<open>try { const data = JSON.parse(line); ... }\<close> once \<open>data\<close> is bound; the
  boolean tells whether the \<open>for\<close> loop over the lines of this read is left by \<open>break\<close>.
  \<open>data.status\<close> on \<open>null\<close> throws a TypeError, which the \<open>catch\<close> of the same \<open>try\<close>
  logs.
\<close>

definition handle_data :: "component \<Rightarrow> js \<Rightarrow> component \<times> bool" where
  "handle_data st data =
     (if data = Null \<or> data = Undefined then (st, False)
      else if js_prop data ''status'' = Str ''error'' then
        (st\<lparr>error := js_prop data ''message''\<rparr>, True)
      else if js_prop data ''status'' = Str ''complete'' \<and> truthy (js_prop data ''result'') then
        (st\<lparr>transcription :=
              (if truthy (js_prop (js_prop data ''result'') ''text'')
               then js_prop (js_prop data ''result'') ''text'' else Str [])\<rparr>, False)
      else (st, False))"

definition handle_line :: "(string \<Rightarrow> js option) \<Rightarrow> component \<Rightarrow> string \<Rightarrow> component \<times> bool" where
  "handle_line parse st line =
     (case parse line of
        None \<Rightarrow> (st, False)
      | Some data \<Rightarrow> handle_data st data)"

text \<open>\<open>for (const line of lines) { ... }\<close>\<close>

fun process_lines :: "(string \<Rightarrow> js option) \<Rightarrow> component \<Rightarrow> string list \<Rightarrow> component" where
  "process_lines parse st [] = st"
| "process_lines parse st (line # rest) =
     (case handle_line parse st line of
        (st', brk) \<Rightarrow> if brk then st' else process_lines parse st' rest)"

text \<open>One turn of the \<open>while (true)\<close> loop on a read that is not \<open>done\<close>: the chunk is split
  and its lines are applied. Nothing is kept of the chunk for the next turn.\<close>

definition process_chunk :: "(string \<Rightarrow> js option) \<Rightarrow> component \<Rightarrow> string \<Rightarrow> component" where
  "process_chunk parse st chunk = process_lines parse st (lines_of chunk)"

text \<open>The whole loop on a body that arrives as the given reads and then ends.\<close>

fun read_loop :: "(string \<Rightarrow> js option) \<Rightarrow> component \<Rightarrow> string list \<Rightarrow> component" where
  "read_loop parse st [] = st"
| "read_loop parse st (chunk # rest) = read_loop parse (process_chunk parse st chunk) rest"

text \<open>
  The sequence of decoded events: the values that the loop binds to \<open>data\<close>, in order. An
  event whose status is \<open>error\<close> ends the lines of its read.
\<close>

definition is_error_event :: "js \<Rightarrow> bool" where
  "is_error_event data =
     (data \<noteq> Null \<and> data \<noteq> Undefined \<and> js_prop data ''status'' = Str ''error'')"

fun decoded_lines :: "(string \<Rightarrow> js option) \<Rightarrow> string list \<Rightarrow> js list" where
  "decoded_lines parse [] = []"
| "decoded_lines parse (line # rest) =
     (case parse line of
        None \<Rightarrow> decoded_lines parse rest
      | Some data \<Rightarrow> if is_error_event data then [data] else data # decoded_lines parse rest)"

definition decoded_events :: "(string \<Rightarrow> js option) \<Rightarrow> string list \<Rightarrow> js list" where
  "decoded_events parse reads = concat (map (\<lambda>chunk. decoded_lines parse (lines_of chunk)) reads)"

section \<open>\<open>processAudioChunks\<close>, segment by segment\<close>

text \<open>Decimal digits of a number, for the template string
  \<open>`HTTP error! status: ${response.status}`\<close>.\<close>

function show_nat :: "nat \<Rightarrow> string" where
  "show_nat n =
     (if n < 10 then [char_of (48 + n)]
      else show_nat (n div 10) @ [char_of (48 + n mod 10)])"
  by pat_completeness auto
termination
  by (relation "measure id") auto

text \<open>What the awaiting handler does once the invocation has settled: the \<open>finally\<close> block
  of \<open>mediaRecorder.onstop\<close>, or nothing for an invocation of the interval.\<close>

definition settle :: "bool \<Rightarrow> component \<Rightarrow> component" where
  "settle aw st = (if aw then st\<lparr>status := ''idle''\<rparr> else st)"

text \<open>
  From the call to the first \<open>await\<close>: with no audio chunk the invocation returns at once;
  otherwise it builds the form data and calls \<open>fetch\<close>, and is suspended.
\<close>

definition processAudioChunks :: "callback \<Rightarrow> bool \<Rightarrow> component \<Rightarrow> component" where
  "processAudioChunks cb aw st =
     (if audioChunksRef st = [] then settle aw st
      else st\<lparr>requests := requests st @ [\<lparr>closure = cb, awaited = aw, phase = Fetching\<rparr>]\<rparr>)"

text \<open>The outer \<open>catch (err)\<close>: \<open>if (!isRecording) setError(...)\<close>, with the
  \<open>isRecording\<close> bound in the function value.\<close>

fun catch_block :: "callback \<Rightarrow> thrown \<Rightarrow> component \<Rightarrow> component" where
  "catch_block (ProcessAudioChunks rec) e st =
     (if \<not> rec then st\<lparr>error := Str (message_of e)\<rparr> else st)"

text \<open>
  What the transport can deliver to a suspended invocation. \<open>fetch\<close> rejects, or resolves
  to a response with a status code and a body stream, or to a response with a status
  code whose \<open>body\<close> is \<open>null\<close> (a 204, say): then \<open>response.body!.getReader()\<close> throws the
  TypeError that the event carries. \<open>reader.read()\<close> resolves to a chunk of decoded text
  or to \<open>done\<close>, or rejects.
\<close>

datatype net =
    FetchRejected thrown
  | Response nat
  | ResponseWithoutBody nat thrown
  | ReadChunk string
  | ReadDone
  | ReadRejected thrown

definition response_ok :: "nat \<Rightarrow> bool" where
  "response_ok code = (200 \<le> code \<and> code \<le> 299)"

definition finish :: "nat \<Rightarrow> component \<Rightarrow> component" where
  "finish i st =
     settle (awaited (requests st ! i))
       (st\<lparr>requests := (requests st)[i := (requests st ! i)\<lparr>phase := Settled\<rparr>]\<rparr>)"

definition on_net :: "(string \<Rightarrow> js option) \<Rightarrow> nat \<Rightarrow> net \<Rightarrow> component \<Rightarrow> component" where
  "on_net parse i ev st =
     (if i < length (requests st) then
        (case (phase (requests st ! i), ev) of
           (Fetching, FetchRejected e) \<Rightarrow>
             finish i (catch_block (closure (requests st ! i)) e st)
         | (Fetching, Response code) \<Rightarrow>
             if response_ok code then
               st\<lparr>requests := (requests st)[i := (requests st ! i)\<lparr>phase := Reading\<rparr>]\<rparr>
             else
               finish i (catch_block (closure (requests st ! i))
                           (ErrorObj (''HTTP error! status: '' @ show_nat code)) st)
         | (Fetching, ResponseWithoutBody code e) \<Rightarrow>
             if response_ok code then
               finish i (catch_block (closure (requests st ! i)) e st)
             else
               finish i (catch_block (closure (requests st ! i))
                           (ErrorObj (''HTTP error! status: '' @ show_nat code)) st)
         | (Reading, ReadChunk chunk) \<Rightarrow> process_chunk parse st chunk
         | (Reading, ReadDone) \<Rightarrow> finish i st
         | (Reading, ReadRejected e) \<Rightarrow>
             finish i (catch_block (closure (requests st ! i)) e st)
         | _ \<Rightarrow> st)
      else st)"

section \<open>The handlers of the component\<close>

text \<open>
  \<open>startRecording\<close> is made anew by every render, and the button calls the one of the
  current render. The recorder's \<open>onstop\<close> handler and the interval's arrow function both
  refer to the constant \<open>processAudioChunks\<close> of that same render, and go on calling that
  function value however often the component renders afterwards: its \<open>isRecording\<close> is
  the one of the state in which Start was clicked.

  \<open>startRecording\<close> runs in two segments. The first, up to
  \<open>await navigator.mediaDevices.getUserMedia(...)\<close>, clears the outcome and the audio
  of the session before.
\<close>

definition startRecording_begin :: "component \<Rightarrow> component" where
  "startRecording_begin st =
     st\<lparr>error := Null, transcription := Str [], audioChunksRef := [],
        audioBlob := None, isStreaming := True\<rparr>"

text \<open>
  The second segment runs when \<open>getUserMedia\<close> has settled, with the
  \<open>processAudioChunks\<close> that the suspended call refers to. On a stream it makes a new
  recorder, stores it in the ref, arms a new interval and stores its id in the ref,
  whatever the two refs held before; on a rejection it runs the \<open>catch\<close> block.
\<close>

datatype device = Granted | Refused thrown

definition startRecording_resume :: "device \<Rightarrow> callback \<Rightarrow> component \<Rightarrow> component" where
  "startRecording_resume dev cb st =
     (case dev of
        Refused e \<Rightarrow>
          st\<lparr>error := Str (message_of e), isRecording := False, isStreaming := False\<rparr>
      | Granted \<Rightarrow>
          st\<lparr>recorders := recorders st @ [\<lparr>rec_state = Recording, tracks_live = True, onstop = cb\<rparr>],
             mediaRecorderRef := Some (length (recorders st)),
             isRecording := True,
             status := ''recording'',
             intervals := intervals st @ [(next_interval st, cb)],
             processingIntervalRef := Some (next_interval st),
             next_interval := Suc (next_interval st)\<rparr>)"

text \<open>A call of \<open>startRecording\<close> whose \<open>getUserMedia\<close> settles before anything else
  happens to the component.\<close>

definition startRecording :: "device \<Rightarrow> component \<Rightarrow> component" where
  "startRecording dev st =
     startRecording_resume dev (ProcessAudioChunks (isRecording st)) (startRecording_begin st)"

text \<open>\<open>mediaRecorder.ondataavailable\<close>\<close>

definition ondataavailable :: "string \<Rightarrow> component \<Rightarrow> component" where
  "ondataavailable blob st =
     (if length blob > 0 then st\<lparr>audioChunksRef := audioChunksRef st @ [blob]\<rparr> else st)"

text \<open>A tick of the interval with the given id, if the host still has it armed.\<close>

definition tick :: "nat \<Rightarrow> component \<Rightarrow> component" where
  "tick tid st =
     (case map_of (intervals st) tid of
        None \<Rightarrow> st
      | Some cb \<Rightarrow> processAudioChunks cb False st)"

text \<open>\<open>clearInterval(id)\<close>\<close>

definition clearInterval :: "nat \<Rightarrow> (nat \<times> callback) list \<Rightarrow> (nat \<times> callback) list" where
  "clearInterval tid ts = filter (\<lambda>t. fst t \<noteq> tid) ts"

text \<open>
  \<open>stopRecording\<close>. Its test reads the recorder that the ref holds.
  \<open>mediaRecorder.stop()\<close> makes that recorder inactive and has the host queue its \<open>stop\<close>
  event; the interval cleared is the one whose id the ref holds; \<open>setTimeout\<close> queues the
  reset of the status.
\<close>

definition stopRecording :: "component \<Rightarrow> component" where
  "stopRecording st =
     (case mediaRecorderRef st of
        None \<Rightarrow> st
      | Some k \<Rightarrow>
          if k < length (recorders st) \<and> rec_state (recorders st ! k) \<noteq> Inactive then
            st\<lparr>recorders :=
                 (recorders st)[k := (recorders st ! k)\<lparr>rec_state := Inactive, tracks_live := False\<rparr>],
               stop_events := stop_events st @ [onstop (recorders st ! k)],
               intervals :=
                 (case processingIntervalRef st of
                    None \<Rightarrow> intervals st
                  | Some tid \<Rightarrow> clearInterval tid (intervals st)),
               processingIntervalRef := None,
               isRecording := False,
               status := ''processing'',
               idle_timeouts := Suc (idle_timeouts st)\<rparr>
          else st)"

text \<open>
  The host stops a recorder by itself when all tracks of its stream have ended or when
  recording fails: the recorder becomes inactive and its \<open>stop\<close> event is queued. No
  handler of the component runs at that moment.
\<close>

definition recorder_ended :: "nat \<Rightarrow> component \<Rightarrow> component" where
  "recorder_ended k st =
     (if k < length (recorders st) \<and> rec_state (recorders st ! k) = Recording then
        st\<lparr>recorders :=
             (recorders st)[k := (recorders st ! k)\<lparr>rec_state := Inactive, tracks_live := False\<rparr>],
           stop_events := stop_events st @ [onstop (recorders st ! k)]\<rparr>
      else st)"

text \<open>\<open>mediaRecorder.onstop\<close>, run when the host delivers a queued \<open>stop\<close> event.\<close>

definition recorder_onstop :: "component \<Rightarrow> component" where
  "recorder_onstop st =
     (case stop_events st of
        [] \<Rightarrow> st
      | cb # rest \<Rightarrow>
          processAudioChunks cb True
            (st\<lparr>stop_events := rest, audioBlob := Some (concat (audioChunksRef st))\<rparr>))"

text \<open>The function given to \<open>setTimeout\<close> by \<open>stopRecording\<close>.\<close>

definition idle_timeout :: "component \<Rightarrow> component" where
  "idle_timeout st =
     (if idle_timeouts st = 0 then st
      else st\<lparr>status := ''idle'', idle_timeouts := idle_timeouts st - 1\<rparr>)"

text \<open>
  The two buttons: Stop is rendered while \<open>isRecording\<close>; otherwise Start is rendered,
  unless the status is \<open>processing\<close>, when the button shown is disabled. A click on Start
  runs the first segment of \<open>startRecording\<close> and leaves the call suspended: until
  \<open>getUserMedia\<close> settles, \<open>isRecording\<close> is unchanged and Start can be clicked again.
\<close>

definition click_start :: "component \<Rightarrow> component" where
  "click_start st =
     (if \<not> isRecording st \<and> status st \<noteq> ''processing'' then
        (startRecording_begin st)
          \<lparr>getUserMedia_pending := getUserMedia_pending st @ [ProcessAudioChunks (isRecording st)]\<rparr>
      else st)"

text \<open>\<open>getUserMedia\<close> settles for the suspended call at position \<open>k\<close>.\<close>

definition media_settled :: "nat \<Rightarrow> device \<Rightarrow> component \<Rightarrow> component" where
  "media_settled k dev st =
     (if k < length (getUserMedia_pending st) then
        startRecording_resume dev (getUserMedia_pending st ! k)
          (st\<lparr>getUserMedia_pending :=
                take k (getUserMedia_pending st) @ drop (Suc k) (getUserMedia_pending st)\<rparr>)
      else st)"

definition click_stop :: "component \<Rightarrow> component" where
  "click_stop st = (if isRecording st then stopRecording st else st)"

section \<open>The session as a sequence of events\<close>

text \<open>
  What can happen to a mounted component: a click on either button, \<open>getUserMedia\<close>
  settling, a recorder delivering data, an interval firing, the host stopping a
  recorder, a queued \<open>stop\<close> event or timeout being delivered, and the transport
  delivering to a suspended invocation.
\<close>

datatype event =
    ClickStart
  | MediaSettled nat device
  | ClickStop
  | DataAvailable nat string
  | Tick nat
  | RecorderEnded nat
  | StopEvent
  | IdleTimeout
  | Net nat net

fun step :: "(string \<Rightarrow> js option) \<Rightarrow> event \<Rightarrow> component \<Rightarrow> component" where
  "step parse ClickStart st = click_start st"
| "step parse (MediaSettled k dev) st = media_settled k dev st"
| "step parse ClickStop st = click_stop st"
| "step parse (DataAvailable k blob) st =
     (if k < length (recorders st) then ondataavailable blob st else st)"
| "step parse (Tick tid) st = tick tid st"
| "step parse (RecorderEnded k) st = recorder_ended k st"
| "step parse StopEvent st = recorder_onstop st"
| "step parse IdleTimeout st = idle_timeout st"
| "step parse (Net i ev) st = on_net parse i ev st"

fun run :: "(string \<Rightarrow> js option) \<Rightarrow> event list \<Rightarrow> component \<Rightarrow> component" where
  "run parse [] st = st"
| "run parse (ev # evs) st = run parse evs (step parse ev st)"

section \<open>Vocabulary of the properties\<close>

text \<open>Response lines as the service writes them, for concrete inputs.\<close>

definition complete_line :: "string \<Rightarrow> string" where
  \<open>complete_line t = ''{"status":"complete","result":{"text":"'' @ t @ ''"}}''\<close>

definition error_line :: "string \<Rightarrow> string" where
  \<open>error_line m = ''{"status":"error","message":"'' @ m @ ''"}''\<close>

definition processing_line :: string where
  \<open>processing_line = ''{"status":"processing"}''\<close>

text \<open>A body delivered one byte per read.\<close>

fun bytewise :: "string \<Rightarrow> string list" where
  "bytewise [] = []"
| "bytewise (c # cs) = [c] # bytewise cs"



text \<open>The number of requests issued so far by the intervals (not by \<open>onstop\<close>).\<close>

fun periodic_issued :: "request list \<Rightarrow> nat" where
  "periodic_issued [] = 0"
| "periodic_issued (r # rs) = (if awaited r then periodic_issued rs else Suc (periodic_issued rs))"

text \<open>The test of \<open>stopRecording\<close>:
  \<open>mediaRecorderRef.current && mediaRecorderRef.current.state !== "inactive"\<close>.\<close>

definition recorder_active :: "component \<Rightarrow> bool" where
  "recorder_active st =
     (case mediaRecorderRef st of
        None \<Rightarrow> False
      | Some k \<Rightarrow> k < length (recorders st) \<and> rec_state (recorders st ! k) \<noteq> Inactive)"

text \<open>
  Every function value of \<open>processAudioChunks\<close> that the session holds (in a suspended
  invocation, in a suspended \<open>startRecording\<close>, in a queued \<open>stop\<close> event, in an interval,
  in a recorder's handler) was made by a render in which \<open>isRecording\<close> was false.
\<close>

definition closures_stale :: "component \<Rightarrow> bool" where
  "closures_stale st =
     (set (map closure (requests st)) \<subseteq> {ProcessAudioChunks False}
      \<and> set (stop_events st) \<subseteq> {ProcessAudioChunks False}
      \<and> set (getUserMedia_pending st) \<subseteq> {ProcessAudioChunks False}
      \<and> set (map snd (intervals st)) \<subseteq> {ProcessAudioChunks False}
      \<and> set (map onstop (recorders st)) \<subseteq> {ProcessAudioChunks False})"

section \<open>Lemmas about the decoder\<close>

lemma split_nl_not_Nil: "split_nl s \<noteq> []"
  by (induction s) (auto split: list.splits)

lemma split_nl_append_NL: "split_nl (a @ NL # b) = split_nl a @ split_nl b"
proof (induction a)
  case Nil
  show ?case by simp
next
  case (Cons c a)
  then show ?case
    by (cases "split_nl a") (auto simp: split_nl_not_Nil)
qed

lemma split_nl_single: "NL \<notin> set m \<Longrightarrow> split_nl m = [m]"
  by (induction m) auto

lemma trim_Nil: "trim [] = []"
  by (simp add: trim_def)

lemma lines_of_Nil: "lines_of [] = []"
  by (simp add: lines_of_def trim_Nil)

lemma lines_of_append_NL: "lines_of (a @ NL # b) = lines_of a @ lines_of b"
  by (simp add: lines_of_def split_nl_append_NL)

lemma lines_of_aligned:
  assumes "r = [] \<or> last r = NL"
  shows "lines_of (r @ b) = lines_of r @ lines_of b"
proof (cases "r = []")
  case True
  then show ?thesis by (simp add: lines_of_Nil)
next
  case False
  with assms have r: "r = butlast r @ [NL]"
    by (metis append_butlast_last_id)
  have "lines_of (r @ b) = lines_of (butlast r @ NL # b)"
    by (subst r) simp
  also have "\<dots> = lines_of (butlast r) @ lines_of b"
    by (rule lines_of_append_NL)
  also have "lines_of (butlast r) = lines_of r"
    using lines_of_append_NL [of "butlast r" "[]"] r by (simp add: lines_of_Nil)
  finally show ?thesis .
qed

lemma lines_of_concat:
  "\<forall>r \<in> set (butlast reads). r = [] \<or> last r = NL \<Longrightarrow>
   lines_of (concat reads) = concat (map lines_of reads)"
proof (induction reads)
  case Nil
  show ?case by (simp add: lines_of_Nil)
next
  case (Cons r rs)
  show ?case
  proof (cases "rs = []")
    case True
    then show ?thesis by simp
  next
    case False
    with Cons.prems have r: "r = [] \<or> last r = NL"
      and rest: "\<forall>r \<in> set (butlast rs). r = [] \<or> last r = NL"
      by auto
    from lines_of_aligned [OF r] Cons.IH [OF rest] show ?thesis by simp
  qed
qed

lemma snd_handle_data: "snd (handle_data st d) = is_error_event d"
  by (simp add: handle_data_def is_error_event_def)

lemma process_lines_append:
  "\<forall>l \<in> set xs. \<forall>d. parse l = Some d \<longrightarrow> \<not> is_error_event d \<Longrightarrow>
   process_lines parse st (xs @ ys) = process_lines parse (process_lines parse st xs) ys"
proof (induction xs arbitrary: st)
  case Nil
  show ?case by simp
next
  case (Cons l xs)
  show ?case
  proof (cases "parse l")
    case None
    with Cons show ?thesis by (simp add: handle_line_def)
  next
    case (Some d)
    with Cons.prems have "\<not> snd (handle_data st d)"
      by (simp add: snd_handle_data)
    then obtain st' where "handle_data st d = (st', False)"
      by (cases "handle_data st d") auto
    with Some Cons show ?thesis
      by (simp add: handle_line_def)
  qed
qed

lemma decoded_lines_append:
  "\<forall>l \<in> set xs. \<forall>d. parse l = Some d \<longrightarrow> \<not> is_error_event d \<Longrightarrow>
   decoded_lines parse (xs @ ys) = decoded_lines parse xs @ decoded_lines parse ys"
  by (induction xs) (auto split: option.splits)

lemma decoded_lines_concat:
  "\<forall>l \<in> set (concat xss). \<forall>d. parse l = Some d \<longrightarrow> \<not> is_error_event d \<Longrightarrow>
   decoded_lines parse (concat xss) = concat (map (decoded_lines parse) xss)"
proof (induction xss)
  case Nil
  show ?case by simp
next
  case (Cons xs xss)
  from Cons.prems have a: "\<forall>l \<in> set xs. \<forall>d. parse l = Some d \<longrightarrow> \<not> is_error_event d"
    and b: "\<forall>l \<in> set (concat xss). \<forall>d. parse l = Some d \<longrightarrow> \<not> is_error_event d"
    by auto
  from decoded_lines_append [OF a] Cons.IH [OF b] show ?case by simp
qed

lemma read_loop_concat:
  "\<forall>l \<in> set (concat (map lines_of reads)). \<forall>d. parse l = Some d \<longrightarrow> \<not> is_error_event d \<Longrightarrow>
   read_loop parse st reads = process_lines parse st (concat (map lines_of reads))"
proof (induction reads arbitrary: st)
  case Nil
  show ?case by simp
next
  case (Cons r rs)
  from Cons.prems have a: "\<forall>l \<in> set (lines_of r). \<forall>d. parse l = Some d \<longrightarrow> \<not> is_error_event d"
    and b: "\<forall>l \<in> set (concat (map lines_of rs)). \<forall>d. parse l = Some d \<longrightarrow> \<not> is_error_event d"
    by auto
  from process_lines_append [OF a] Cons.IH [OF b] show ?case
    by (simp add: process_chunk_def)
qed

lemma handle_data_non_object:
  assumes "\<forall>kvs. data \<noteq> Obj kvs"
  shows "handle_data st data = (st, False)"
  using assms by (cases data) (simp_all add: handle_data_def)

lemma handle_line_ignored:
  assumes "\<forall>kvs. parse m \<noteq> Some (Obj kvs)"
  shows "handle_line parse st m = (st, False)"
proof (cases "parse m")
  case None
  then show ?thesis by (simp add: handle_line_def)
next
  case (Some data)
  with assms have "\<forall>kvs. data \<noteq> Obj kvs" by simp
  with Some show ?thesis by (simp add: handle_line_def handle_data_non_object)
qed

lemma process_lines_skip:
  assumes "handle_line parse st m = (st, False)" "\<And>s. handle_line parse s m = (s, False)"
  shows "process_lines parse st (pre @ m # post) = process_lines parse st (pre @ post)"
  using assms
proof (induction pre arbitrary: st)
  case Nil
  then show ?case by simp
next
  case (Cons l pre)
  obtain st' brk where h: "handle_line parse st l = (st', brk)"
    by (cases "handle_line parse st l")
  from Cons.IH [of st'] Cons.prems(2) h show ?case by simp
qed




section \<open>Lemmas about the session\<close>

lemma handle_data_frame:
  "fst (handle_data st data)
   = st\<lparr>transcription := transcription (fst (handle_data st data)),
         error := error (fst (handle_data st data))\<rparr>"
  by (simp add: handle_data_def)

lemma handle_line_frame:
  "fst (handle_line parse st l)
   = st\<lparr>transcription := transcription (fst (handle_line parse st l)),
         error := error (fst (handle_line parse st l))\<rparr>"
proof (cases "parse l")
  case None
  then show ?thesis by (simp add: handle_line_def)
next
  case (Some d)
  with handle_data_frame [of st d] show ?thesis by (simp add: handle_line_def)
qed

lemma frame_trans:
  assumes "b = a\<lparr>transcription := t, error := e\<rparr>"
    and "c = b\<lparr>transcription := t', error := e'\<rparr>"
  shows "c = a\<lparr>transcription := transcription c, error := error c\<rparr>"
  using assms by simp

lemma process_lines_frame:
  "process_lines parse st ls
   = st\<lparr>transcription := transcription (process_lines parse st ls),
         error := error (process_lines parse st ls)\<rparr>"
proof (induction ls arbitrary: st)
  case Nil
  show ?case by simp
next
  case (Cons l ls)
  obtain st' brk where h: "handle_line parse st l = (st', brk)"
    by (cases "handle_line parse st l")
  from handle_line_frame [of parse st l] h
  have st': "st' = st\<lparr>transcription := transcription st', error := error st'\<rparr>"
    by simp
  show ?case
  proof (cases brk)
    case True
    with h have "process_lines parse st (l # ls) = st'" by simp
    with st' show ?thesis by simp
  next
    case False
    with h have eq: "process_lines parse st (l # ls) = process_lines parse st' ls" by simp
    from frame_trans [OF st' Cons.IH [of st']] show ?thesis
      unfolding eq .
  qed
qed

lemma process_chunk_fields:
  "requests (process_chunk parse st chunk) = requests st"
  "status (process_chunk parse st chunk) = status st"
  "idle_timeouts (process_chunk parse st chunk) = idle_timeouts st"
  "processingIntervalRef (process_chunk parse st chunk) = processingIntervalRef st"
  "isRecording (process_chunk parse st chunk) = isRecording st"
  "mediaRecorderRef (process_chunk parse st chunk) = mediaRecorderRef st"
  "stop_events (process_chunk parse st chunk) = stop_events st"
  "audioChunksRef (process_chunk parse st chunk) = audioChunksRef st"
  "getUserMedia_pending (process_chunk parse st chunk) = getUserMedia_pending st"
  "recorders (process_chunk parse st chunk) = recorders st"
  "intervals (process_chunk parse st chunk) = intervals st"
  "next_interval (process_chunk parse st chunk) = next_interval st"
proof -
  note f = process_lines_frame [of parse st "lines_of chunk"]
  show "requests (process_chunk parse st chunk) = requests st"
    unfolding process_chunk_def by (subst f) simp
  show "status (process_chunk parse st chunk) = status st"
    unfolding process_chunk_def by (subst f) simp
  show "idle_timeouts (process_chunk parse st chunk) = idle_timeouts st"
    unfolding process_chunk_def by (subst f) simp
  show "processingIntervalRef (process_chunk parse st chunk) = processingIntervalRef st"
    unfolding process_chunk_def by (subst f) simp
  show "isRecording (process_chunk parse st chunk) = isRecording st"
    unfolding process_chunk_def by (subst f) simp
  show "mediaRecorderRef (process_chunk parse st chunk) = mediaRecorderRef st"
    unfolding process_chunk_def by (subst f) simp
  show "stop_events (process_chunk parse st chunk) = stop_events st"
    unfolding process_chunk_def by (subst f) simp
  show "audioChunksRef (process_chunk parse st chunk) = audioChunksRef st"
    unfolding process_chunk_def by (subst f) simp
  show "getUserMedia_pending (process_chunk parse st chunk) = getUserMedia_pending st"
    unfolding process_chunk_def by (subst f) simp
  show "recorders (process_chunk parse st chunk) = recorders st"
    unfolding process_chunk_def by (subst f) simp
  show "intervals (process_chunk parse st chunk) = intervals st"
    unfolding process_chunk_def by (subst f) simp
  show "next_interval (process_chunk parse st chunk) = next_interval st"
    unfolding process_chunk_def by (subst f) simp
qed

lemma run_append: "run parse (xs @ ys) st = run parse ys (run parse xs st)"
  by (induction xs arbitrary: st) simp_all

lemma periodic_issued_snoc:
  "periodic_issued (rs @ [r]) = (if awaited r then periodic_issued rs else Suc (periodic_issued rs))"
  by (induction rs) simp_all

lemma periodic_issued_phase:
  "i < length rs \<Longrightarrow> periodic_issued (rs[i := (rs ! i)\<lparr>phase := p\<rparr>]) = periodic_issued rs"
proof (induction rs arbitrary: i)
  case Nil
  then show ?case by simp
next
  case (Cons r rs)
  then show ?case by (cases i) simp_all
qed

lemma settle_fields:
  "requests (settle aw st) = requests st"
  "processingIntervalRef (settle aw st) = processingIntervalRef st"
  "idle_timeouts (settle aw st) = idle_timeouts st"
  "isRecording (settle aw st) = isRecording st"
  "mediaRecorderRef (settle aw st) = mediaRecorderRef st"
  "error (settle aw st) = error st"
  "transcription (settle aw st) = transcription st"
  "getUserMedia_pending (settle aw st) = getUserMedia_pending st"
  "recorders (settle aw st) = recorders st"
  "intervals (settle aw st) = intervals st"
  "stop_events (settle aw st) = stop_events st"
  by (simp_all add: settle_def)

lemma catch_block_fields:
  "requests (catch_block cb e st) = requests st"
  "processingIntervalRef (catch_block cb e st) = processingIntervalRef st"
  "idle_timeouts (catch_block cb e st) = idle_timeouts st"
  "isRecording (catch_block cb e st) = isRecording st"
  "mediaRecorderRef (catch_block cb e st) = mediaRecorderRef st"
  "getUserMedia_pending (catch_block cb e st) = getUserMedia_pending st"
  "recorders (catch_block cb e st) = recorders st"
  "intervals (catch_block cb e st) = intervals st"
  "stop_events (catch_block cb e st) = stop_events st"
  by (cases cb; simp)+

lemma finish_fields:
  "requests (finish i st) = (requests st)[i := (requests st ! i)\<lparr>phase := Settled\<rparr>]"
  "processingIntervalRef (finish i st) = processingIntervalRef st"
  "idle_timeouts (finish i st) = idle_timeouts st"
  "isRecording (finish i st) = isRecording st"
  "mediaRecorderRef (finish i st) = mediaRecorderRef st"
  "error (finish i st) = error st"
  "transcription (finish i st) = transcription st"
  "getUserMedia_pending (finish i st) = getUserMedia_pending st"
  "recorders (finish i st) = recorders st"
  "intervals (finish i st) = intervals st"
  "stop_events (finish i st) = stop_events st"
  by (simp_all add: finish_def settle_fields)

lemma finish_awaited_idle:
  "awaited (requests st ! i) \<Longrightarrow> status (finish i st) = ''idle''"
  by (simp add: finish_def settle_def)

lemma on_net_fields:
  "processingIntervalRef (on_net parse i ev st) = processingIntervalRef st"
  "idle_timeouts (on_net parse i ev st) = idle_timeouts st"
  "isRecording (on_net parse i ev st) = isRecording st"
  "mediaRecorderRef (on_net parse i ev st) = mediaRecorderRef st"
  "getUserMedia_pending (on_net parse i ev st) = getUserMedia_pending st"
  "recorders (on_net parse i ev st) = recorders st"
  "intervals (on_net parse i ev st) = intervals st"
  "stop_events (on_net parse i ev st) = stop_events st"
  "periodic_issued (requests (on_net parse i ev st)) = periodic_issued (requests st)"
proof -
  show "processingIntervalRef (on_net parse i ev st) = processingIntervalRef st"
    by (cases "phase (requests st ! i)"; cases ev)
       (simp_all add: on_net_def process_chunk_fields finish_fields catch_block_fields)
  show "idle_timeouts (on_net parse i ev st) = idle_timeouts st"
    by (cases "phase (requests st ! i)"; cases ev)
       (simp_all add: on_net_def process_chunk_fields finish_fields catch_block_fields)
  show "isRecording (on_net parse i ev st) = isRecording st"
    by (cases "phase (requests st ! i)"; cases ev)
       (simp_all add: on_net_def process_chunk_fields finish_fields catch_block_fields)
  show "mediaRecorderRef (on_net parse i ev st) = mediaRecorderRef st"
    by (cases "phase (requests st ! i)"; cases ev)
       (simp_all add: on_net_def process_chunk_fields finish_fields catch_block_fields)
  show "getUserMedia_pending (on_net parse i ev st) = getUserMedia_pending st"
    by (cases "phase (requests st ! i)"; cases ev)
       (simp_all add: on_net_def process_chunk_fields finish_fields catch_block_fields)
  show "recorders (on_net parse i ev st) = recorders st"
    by (cases "phase (requests st ! i)"; cases ev)
       (simp_all add: on_net_def process_chunk_fields finish_fields catch_block_fields)
  show "intervals (on_net parse i ev st) = intervals st"
    by (cases "phase (requests st ! i)"; cases ev)
       (simp_all add: on_net_def process_chunk_fields finish_fields catch_block_fields)
  show "stop_events (on_net parse i ev st) = stop_events st"
    by (cases "phase (requests st ! i)"; cases ev)
       (simp_all add: on_net_def process_chunk_fields finish_fields catch_block_fields)
  show "periodic_issued (requests (on_net parse i ev st)) = periodic_issued (requests st)"
    by (cases "phase (requests st ! i)"; cases ev)
       (simp_all add: on_net_def process_chunk_fields finish_fields catch_block_fields
          periodic_issued_phase)
qed

lemma map_closure_phase:
  "map closure (rs[i := (rs ! i)\<lparr>phase := p\<rparr>]) = map closure rs"
proof (induction rs arbitrary: i)
  case Nil
  show ?case by simp
next
  case (Cons r rs)
  then show ?case by (cases i) simp_all
qed

lemma map_onstop_inactive:
  "map onstop (rs[k := (rs ! k)\<lparr>rec_state := s, tracks_live := b\<rparr>]) = map onstop rs"
proof (induction rs arbitrary: k)
  case Nil
  show ?case by simp
next
  case (Cons r rs)
  then show ?case by (cases k) simp_all
qed

lemma on_net_closures:
  "map closure (requests (on_net parse i ev st)) = map closure (requests st)"
  by (cases "phase (requests st ! i)"; cases ev)
     (simp_all add: on_net_def process_chunk_fields finish_fields catch_block_fields map_closure_phase)

lemma start_in_two_steps:
  assumes "\<not> isRecording st" "status st \<noteq> ''processing''" "getUserMedia_pending st = []"
  shows "run parse [ClickStart, MediaSettled 0 dev] st = startRecording dev st"
  using assms
  by (cases st)
     (simp add: click_start_def media_settled_def startRecording_def startRecording_begin_def)

lemma all_same_nth:
  assumes "set (map f xs) \<subseteq> {c}" "k < length xs"
  shows "f (xs ! k) = c"
proof -
  from assms(2) have "f (xs ! k) \<in> set (map f xs)"
    by (metis length_map nth_map nth_mem)
  with assms(1) show ?thesis by blast
qed

lemma closures_stale_step:
  assumes "closures_stale st"
  shows "closures_stale (step parse ev st)"
proof (cases ev)
  case ClickStart
  with assms show ?thesis
    by (simp add: click_start_def startRecording_begin_def closures_stale_def)
next
  case (MediaSettled k dev)
  show ?thesis
  proof (cases "k < length (getUserMedia_pending st)")
    case False
    with assms MediaSettled show ?thesis by (simp add: media_settled_def)
  next
    case True
    with assms have cb: "getUserMedia_pending st ! k = ProcessAudioChunks False"
      unfolding closures_stale_def by (metis nth_mem singletonD subsetD)
    have sub: "set (take k (getUserMedia_pending st) @ drop (Suc k) (getUserMedia_pending st))
               \<subseteq> set (getUserMedia_pending st)"
      using set_take_subset [of k "getUserMedia_pending st"]
        set_drop_subset [of "Suc k" "getUserMedia_pending st"] by auto
    with assms have pend: "set (take k (getUserMedia_pending st) @ drop (Suc k) (getUserMedia_pending st))
               \<subseteq> {ProcessAudioChunks False}"
      unfolding closures_stale_def by blast
    from assms cb pend True MediaSettled show ?thesis
      by (cases dev) (simp_all add: media_settled_def startRecording_resume_def closures_stale_def)
  qed
next
  case ClickStop
  show ?thesis
  proof (cases "isRecording st \<and> recorder_active st")
    case False
    with assms ClickStop show ?thesis
      by (auto simp: click_stop_def stopRecording_def recorder_active_def split: option.splits)
  next
    case True
    then obtain k where k: "mediaRecorderRef st = Some k" "k < length (recorders st)"
        "rec_state (recorders st ! k) \<noteq> Inactive"
      by (auto simp: recorder_active_def split: option.splits)
    from assms have rs: "set (map onstop (recorders st)) \<subseteq> {ProcessAudioChunks False}"
      and ts: "set (map snd (intervals st)) \<subseteq> {ProcessAudioChunks False}"
      by (simp_all add: closures_stale_def)
    from all_same_nth [OF rs k(2)] have cb: "onstop (recorders st ! k) = ProcessAudioChunks False" .
    have "\<And>tid. set (map snd (clearInterval tid (intervals st))) \<subseteq> set (map snd (intervals st))"
      by (auto simp: clearInterval_def)
    with ts have ts': "\<And>tid. set (map snd (clearInterval tid (intervals st))) \<subseteq> {ProcessAudioChunks False}"
      by blast
    have ts'': "set (map snd (case processingIntervalRef st of None \<Rightarrow> intervals st
                   | Some tid \<Rightarrow> clearInterval tid (intervals st))) \<subseteq> {ProcessAudioChunks False}"
      using ts ts' by (cases "processingIntervalRef st") simp_all
    have "closures_stale (stopRecording st)"
      unfolding closures_stale_def using assms k cb ts''
      by (simp add: stopRecording_def closures_stale_def map_onstop_inactive del: set_map)
    with True ClickStop show ?thesis by (simp add: click_stop_def)
  qed
next
  case (DataAvailable k blob)
  with assms show ?thesis by (simp add: ondataavailable_def closures_stale_def)
next
  case (Tick tid)
  show ?thesis
  proof (cases "map_of (intervals st) tid")
    case None
    with assms Tick show ?thesis by (simp add: tick_def)
  next
    case (Some cb)
    then have "cb \<in> set (map snd (intervals st))"
      by (metis map_of_SomeD image_eqI set_map snd_conv)
    with assms have "cb = ProcessAudioChunks False"
      unfolding closures_stale_def by blast
    with assms Tick Some show ?thesis
      by (simp add: tick_def processAudioChunks_def settle_def closures_stale_def)
  qed
next
  case (RecorderEnded k)
  show ?thesis
  proof (cases "k < length (recorders st) \<and> rec_state (recorders st ! k) = Recording")
    case False
    with assms RecorderEnded show ?thesis by (auto simp: recorder_ended_def)
  next
    case True
    from assms have rs: "set (map onstop (recorders st)) \<subseteq> {ProcessAudioChunks False}"
      by (simp add: closures_stale_def)
    from all_same_nth [OF rs] True have cb: "onstop (recorders st ! k) = ProcessAudioChunks False"
      by simp
    from assms True cb RecorderEnded show ?thesis
      by (simp add: recorder_ended_def closures_stale_def map_onstop_inactive del: set_map)
  qed
next
  case StopEvent
  with assms show ?thesis
    by (cases "stop_events st")
       (auto simp: recorder_onstop_def processAudioChunks_def settle_def closures_stale_def)
next
  case IdleTimeout
  with assms show ?thesis by (simp add: idle_timeout_def closures_stale_def)
next
  case (Net i nev)
  with assms show ?thesis
    by (simp add: closures_stale_def on_net_closures on_net_fields)
qed

lemma closures_stale_reachable: "closures_stale (run parse evs initial)"
proof -
  have "\<And>st. closures_stale st \<Longrightarrow> closures_stale (run parse evs st)"
    by (induction evs) (simp_all add: closures_stale_step)
  moreover have "closures_stale initial"
    by (simp add: closures_stale_def initial_def)
  ultimately show ?thesis by blast
qed

lemma transport_failure_surfaced_in_every_session:
  assumes "i < length (requests (run parse evs initial))"
    and "phase (requests (run parse evs initial) ! i) = Fetching"
  shows "error (on_net parse i (FetchRejected e) (run parse evs initial)) = Str (message_of e)"
proof -
  from closures_stale_reachable [of parse evs]
  have "set (map closure (requests (run parse evs initial))) \<subseteq> {ProcessAudioChunks False}"
    by (simp add: closures_stale_def)
  moreover from assms(1)
  have "closure (requests (run parse evs initial) ! i) \<in> set (map closure (requests (run parse evs initial)))"
    by (metis length_map nth_map nth_mem)
  ultimately have "closure (requests (run parse evs initial) ! i) = ProcessAudioChunks False"
    by blast
  with assms show ?thesis
    by (simp add: on_net_def finish_fields)
qed

section \<open>The frame decoder and the split of the body into reads\<close>

text \<open>
  C1, as the code has it. The decoder keeps no carry-over buffer: each read is split on
  newline and every non-blank piece is parsed on its own. When the transport splits the
  body only at line boundaries (every read but the last is empty or ends with a
  newline) and no line decodes to an event of status \<open>error\<close>, decoding read by read
  yields the same sequence of decoded events, and the same state, as decoding the same
  bytes delivered as a single read.
\<close>

theorem line_aligned_reads_decode_alike:
  assumes aligned: "\<forall>r \<in> set (butlast reads). r = [] \<or> last r = NL"
    and no_error: "\<forall>line \<in> set (lines_of (concat reads)). \<forall>d. parse line = Some d \<longrightarrow> \<not> is_error_event d"
  shows "decoded_events parse reads = decoded_events parse [concat reads]
       \<and> read_loop parse st reads = read_loop parse st [concat reads]"
proof -
  have ls: "lines_of (concat reads) = concat (map lines_of reads)"
    using aligned by (rule lines_of_concat)
  from no_error have ne: "\<forall>l \<in> set (concat (map lines_of reads)). \<forall>d. parse l = Some d \<longrightarrow> \<not> is_error_event d"
    by (simp only: ls)
  have "decoded_events parse reads = decoded_lines parse (concat (map lines_of reads))"
    using decoded_lines_concat [OF ne] by (simp add: decoded_events_def comp_def)
  then have ev: "decoded_events parse reads = decoded_events parse [concat reads]"
    by (simp add: decoded_events_def ls)
  have "read_loop parse st reads = process_lines parse st (lines_of (concat reads))"
    using read_loop_concat [OF ne] by (simp add: ls)
  then have "read_loop parse st reads = read_loop parse st [concat reads]"
    by (simp add: process_chunk_def)
  with ev show ?thesis by simp
qed

text \<open>
  Witness for C1 as amended: a \<open>processing\<close> line and a \<open>complete\<close> line, one read each.
\<close>

theorem line_aligned_reads_decode_alike_witness:
  \<open>decoded_events JSON_parse [processing_line @ [NL], complete_line ''hi'' @ [NL]]
     = decoded_events JSON_parse [concat [processing_line @ [NL], complete_line ''hi'' @ [NL]]]
   \<and> read_loop JSON_parse initial [processing_line @ [NL], complete_line ''hi'' @ [NL]]
     = read_loop JSON_parse initial [concat [processing_line @ [NL], complete_line ''hi'' @ [NL]]]
   \<and> transcription (read_loop JSON_parse initial [processing_line @ [NL], complete_line ''hi'' @ [NL]])
     = Str ''hi''\<close>
proof -
  have aligned: "\<forall>r \<in> set (butlast [processing_line @ [NL], complete_line ''hi'' @ [NL]]). r = [] \<or> last r = NL"
    by simp
  have ls: "lines_of (concat [processing_line @ [NL], complete_line ''hi'' @ [NL]])
            = [processing_line, complete_line ''hi'']"
    by code_simp
  have p1: "JSON_parse processing_line = Some (Obj [(''status'', Str ''processing'')])"
    by code_simp
  have p2: "JSON_parse (complete_line ''hi'')
            = Some (Obj [(''status'', Str ''complete''), (''result'', Obj [(''text'', Str ''hi'')])])"
    by code_simp
  have no_error: "\<forall>line \<in> set (lines_of (concat [processing_line @ [NL], complete_line ''hi'' @ [NL]])).
                    \<forall>d. JSON_parse line = Some d \<longrightarrow> \<not> is_error_event d"
    unfolding ls using p1 p2 by (auto simp: is_error_event_def)
  have t: "transcription (read_loop JSON_parse initial [processing_line @ [NL], complete_line ''hi'' @ [NL]])
           = Str ''hi''"
    by code_simp
  from line_aligned_reads_decode_alike [OF aligned no_error, of initial] t
  show ?thesis by simp
qed

text \<open>
  Counterexample to C1 as stated. The line
  \<open>{"status":"complete","result":{"text":"hi"}}\<close> followed by a newline decodes to one
  \<open>complete\<close> event when it arrives as a single read, and to no event at all when it
  arrives one byte per read; split into two reads in the middle of the object, it
  leaves the transcription empty, where the single read sets it to \<open>hi\<close>.
\<close>

theorem split_reads_decode_differently:
  \<open>decoded_events JSON_parse (bytewise (complete_line ''hi'' @ [NL]))
     \<noteq> decoded_events JSON_parse [complete_line ''hi'' @ [NL]]
   \<and> decoded_events JSON_parse (bytewise (complete_line ''hi'' @ [NL])) = []
   \<and> transcription (read_loop JSON_parse initial
         [''{"status":"complete","res'', ''ult":{"text":"hi"}}'' @ [NL]])
     \<noteq> transcription (read_loop JSON_parse initial
         [''{"status":"complete","res'' @ ''ult":{"text":"hi"}}'' @ [NL]])
   \<and> transcription (read_loop JSON_parse initial
         [''{"status":"complete","res'' @ ''ult":{"text":"hi"}}'' @ [NL]]) = Str ''hi''\<close>
  by code_simp

text \<open>
  The second condition cannot be dropped: an \<open>error\<close> event ends the lines of its own read
  only. In a single read the \<open>complete\<close> line after it is never parsed; in a read of its
  own it is applied.
\<close>

lemma error_event_ends_only_its_own_read:
  \<open>transcription (read_loop JSON_parse initial
      [error_line ''boom'' @ [NL] @ complete_line ''hi'' @ [NL]]) = Str []
   \<and> transcription (read_loop JSON_parse initial
      [error_line ''boom'' @ [NL], complete_line ''hi'' @ [NL]]) = Str ''hi''\<close>
  by code_simp

section \<open>Lines that are not events, and events that change nothing\<close>

text \<open>
  C7. A line that does not parse as a JSON object (\<open>JSON.parse\<close> throws, or returns a
  value that is not an object) is ignored and does not abort the stream: taking it out
  from between the lines around it changes nothing of what the decoder does with them,
  whether it stands between two lines of one read, in the list of lines of a read, or in
  a read of its own.
\<close>

theorem malformed_line_is_skipped:
  assumes malformed: "\<forall>kvs. parse m \<noteq> Some (Obj kvs)"
    and one_line: "NL \<notin> set m"
  shows "process_chunk parse st (a @ NL # m @ NL # b) = process_chunk parse st (a @ NL # b)
       \<and> process_lines parse st (pre @ m # post) = process_lines parse st (pre @ post)
       \<and> read_loop parse st (before @ (m @ [NL]) # after) = read_loop parse st (before @ after)"
proof -
  have skip: "\<And>s. handle_line parse s m = (s, False)"
    using malformed by (rule handle_line_ignored)
  have lines: "\<And>xs ys s. process_lines parse s (xs @ m # ys) = process_lines parse s (xs @ ys)"
    using skip by (rule process_lines_skip) (rule skip)
  have "lines_of (a @ NL # m @ NL # b) = lines_of a @ lines_of m @ lines_of b"
    by (simp add: lines_of_append_NL)
  moreover have "lines_of m = [m] \<or> lines_of m = []"
    using one_line by (simp add: lines_of_def split_nl_single)
  ultimately have chunk: "process_chunk parse st (a @ NL # m @ NL # b) = process_chunk parse st (a @ NL # b)"
    using lines [where xs = "lines_of a" and ys = "lines_of b" and s = st]
    by (auto simp: process_chunk_def lines_of_append_NL)
  have "lines_of (m @ [NL]) = [m] \<or> lines_of (m @ [NL]) = []"
    using one_line lines_of_append_NL [of m "[]"]
    by (simp add: lines_of_def split_nl_single trim_Nil)
  then have own_read: "\<And>s. process_chunk parse s (m @ [NL]) = s"
    using skip by (auto simp: process_chunk_def)
  have "read_loop parse st (before @ (m @ [NL]) # after) = read_loop parse st (before @ after)"
    by (induction before arbitrary: st) (simp_all add: own_read)
  with chunk lines show ?thesis by simp
qed

text \<open>
  Witness for C7: \<open>not json\<close> between a \<open>processing\<close> line and a \<open>complete\<close> line; the
  text of the \<open>complete\<close> line is applied.
\<close>

theorem malformed_line_is_skipped_witness:
  \<open>process_chunk JSON_parse initial
      (processing_line @ NL # ''not json'' @ NL # complete_line ''hi'' @ [NL])
     = process_chunk JSON_parse initial (processing_line @ NL # complete_line ''hi'' @ [NL])
   \<and> transcription (process_chunk JSON_parse initial
        (processing_line @ NL # ''not json'' @ NL # complete_line ''hi'' @ [NL])) = Str ''hi''
   \<and> transcription (read_loop JSON_parse initial
        ([processing_line @ [NL]] @ (''not json'' @ [NL]) # [complete_line ''hi'' @ [NL]])) = Str ''hi''\<close>
proof -
  have "JSON_parse ''not json'' = None"
    by code_simp
  then have malformed: "\<forall>kvs. JSON_parse ''not json'' \<noteq> Some (Obj kvs)"
    by simp
  have one_line: "NL \<notin> set ''not json''"
    by (simp add: NL_def)
  have t1: "transcription (process_chunk JSON_parse initial
              (processing_line @ NL # complete_line ''hi'' @ [NL])) = Str ''hi''"
    by code_simp
  have t2: "transcription (read_loop JSON_parse initial
              ([processing_line @ [NL]] @ [complete_line ''hi'' @ [NL]])) = Str ''hi''"
    by code_simp
  from malformed_line_is_skipped [where parse = JSON_parse and m = "''not json''"
      and st = initial and a = processing_line and b = "complete_line ''hi'' @ [NL]"
      and pre = "[]" and post = "[]" and before = "[processing_line @ [NL]]"
      and after = "[complete_line ''hi'' @ [NL]]", OF malformed one_line] t1 t2
  show ?thesis by simp
qed

text \<open>
  C8. A decoded event of status \<open>processing\<close> changes nothing: neither branch of the
  \<open>if\<close> is taken, the loop goes on, and the transcription text is what it was.
\<close>

theorem processing_event_changes_nothing:
  assumes "js_prop data ''status'' = Str ''processing''"
  shows "handle_data st data = (st, False)
       \<and> (parse line = Some data \<longrightarrow> handle_line parse st line = (st, False))
       \<and> (parse line = Some data \<longrightarrow> lines_of chunk = [line] \<longrightarrow>
            transcription (process_chunk parse st chunk) = transcription st)"
proof -
  have "handle_data st data = (st, False)"
    using assms by (simp add: handle_data_def)
  then show ?thesis
    by (simp add: handle_line_def process_chunk_def)
qed

text \<open>Witness for C8: a \<open>processing\<close> event on a state with a transcription.\<close>

theorem processing_event_changes_nothing_witness:
  \<open>handle_data (initial\<lparr>transcription := Str ''so far''\<rparr>) (Obj [(''status'', Str ''processing'')])
     = (initial\<lparr>transcription := Str ''so far''\<rparr>, False)
   \<and> transcription (process_chunk JSON_parse (initial\<lparr>transcription := Str ''so far''\<rparr>)
        (processing_line @ [NL])) = Str ''so far''\<close>
proof -
  have st: "js_prop (Obj [(''status'', Str ''processing'')]) ''status'' = Str ''processing''"
    by simp
  have p: "JSON_parse processing_line = Some (Obj [(''status'', Str ''processing'')])"
    by code_simp
  have l: "lines_of (processing_line @ [NL]) = [processing_line]"
    by code_simp
  from processing_event_changes_nothing [where st = "initial\<lparr>transcription := Str ''so far''\<rparr>"
      and parse = JSON_parse and line = processing_line and chunk = "processing_line @ [NL]", OF st] p l
  show ?thesis by simp
qed

text \<open>
  C10, as the code has it. For a decoded event of status \<open>complete\<close>: when its \<open>result\<close>
  is absent or falsy (\<open>null\<close>, \<open>false\<close>, \<open>0\<close>, the empty string), the event is ignored
  and the whole state, transcription text and error included, is unchanged. When its
  \<open>result\<close> is truthy and the \<open>text\<close> of the result is absent or falsy, the transcription
  text becomes the empty string and nothing else changes: so it is for a result object
  whose \<open>text\<close> is absent or empty, and for every truthy result that is not an object
  (a non-empty string, a number other than zero, \<open>true\<close>, an array), which has no \<open>text\<close>.
\<close>

theorem complete_event_result:
  assumes "js_prop data ''status'' = Str ''complete''"
  shows "(\<not> truthy (js_prop data ''result'') \<longrightarrow> handle_data st data = (st, False))
       \<and> (truthy (js_prop data ''result'')
              \<and> \<not> truthy (js_prop (js_prop data ''result'') ''text'')
            \<longrightarrow> handle_data st data = (st\<lparr>transcription := Str []\<rparr>, False))
       \<and> (truthy (js_prop data ''result'') \<and> (\<forall>kvs. js_prop data ''result'' \<noteq> Obj kvs)
            \<longrightarrow> handle_data st data = (st\<lparr>transcription := Str []\<rparr>, False))"
proof -
  from assms have nn: "data \<noteq> Null" "data \<noteq> Undefined"
    by auto
  have prim: "(\<forall>kvs. js_prop data ''result'' \<noteq> Obj kvs)
              \<longrightarrow> js_prop (js_prop data ''result'') ''text'' = Undefined"
    by (cases "js_prop data ''result''") simp_all
  from assms nn have
    a: "\<not> truthy (js_prop data ''result'') \<longrightarrow> handle_data st data = (st, False)"
    and b: "truthy (js_prop data ''result'')
              \<and> \<not> truthy (js_prop (js_prop data ''result'') ''text'')
            \<longrightarrow> handle_data st data = (st\<lparr>transcription := Str []\<rparr>, False)"
    by (simp_all add: handle_data_def)
  from b prim have
    "truthy (js_prop data ''result'') \<and> (\<forall>kvs. js_prop data ''result'' \<noteq> Obj kvs)
       \<longrightarrow> handle_data st data = (st\<lparr>transcription := Str []\<rparr>, False)"
    by simp
  with a b show ?thesis by blast
qed

text \<open>
  Witness for C10 as amended: a \<open>complete\<close> event without \<open>result\<close>, one whose \<open>result\<close>
  is \<open>null\<close>, one whose \<open>text\<close> is empty, one whose \<open>result\<close> has no \<open>text\<close>, and one
  whose \<open>result\<close> is the number 7.
\<close>

theorem complete_event_result_witness:
  \<open>handle_data (initial\<lparr>transcription := Str ''so far''\<rparr>) (Obj [(''status'', Str ''complete'')])
     = (initial\<lparr>transcription := Str ''so far''\<rparr>, False)
   \<and> handle_data (initial\<lparr>transcription := Str ''so far''\<rparr>)
        (Obj [(''status'', Str ''complete''), (''result'', Null)])
     = (initial\<lparr>transcription := Str ''so far''\<rparr>, False)
   \<and> handle_data (initial\<lparr>transcription := Str ''so far''\<rparr>)
        (Obj [(''status'', Str ''complete''), (''result'', Obj [(''text'', Str [])])])
     = (initial\<lparr>transcription := Str []\<rparr>, False)
   \<and> handle_data (initial\<lparr>transcription := Str ''so far''\<rparr>)
        (Obj [(''status'', Str ''complete''), (''result'', Obj [])])
     = (initial\<lparr>transcription := Str []\<rparr>, False)
   \<and> handle_data (initial\<lparr>transcription := Str ''so far''\<rparr>)
        (Obj [(''status'', Str ''complete''), (''result'', Num 7)])
     = (initial\<lparr>transcription := Str []\<rparr>, False)\<close>
proof -
  have s1: "js_prop (Obj [(''status'', Str ''complete'')]) ''status'' = Str ''complete''"
    by simp
  have s2: "js_prop (Obj [(''status'', Str ''complete''), (''result'', Null)]) ''status'' = Str ''complete''"
    by simp
  have s3: "js_prop (Obj [(''status'', Str ''complete''), (''result'', Obj [(''text'', Str [])])]) ''status''
            = Str ''complete''"
    by simp
  have s4: "js_prop (Obj [(''status'', Str ''complete''), (''result'', Obj [])]) ''status'' = Str ''complete''"
    by simp
  have s5: "js_prop (Obj [(''status'', Str ''complete''), (''result'', Num 7)]) ''status'' = Str ''complete''"
    by simp
  from complete_event_result [OF s1, of "initial\<lparr>transcription := Str ''so far''\<rparr>"]
    complete_event_result [OF s2, of "initial\<lparr>transcription := Str ''so far''\<rparr>"]
    complete_event_result [OF s3, of "initial\<lparr>transcription := Str ''so far''\<rparr>"]
    complete_event_result [OF s4, of "initial\<lparr>transcription := Str ''so far''\<rparr>"]
    complete_event_result [OF s5, of "initial\<lparr>transcription := Str ''so far''\<rparr>"]
  show ?thesis by simp
qed

text \<open>
  Counterexample to C10 as stated. The line \<open>{"status":"complete","result":"oops"}\<close>
  carries no result object, and yet it is not ignored: the transcription text \<open>so far\<close>
  becomes the empty string. The same holds for the results \<open>7\<close> and \<open>true\<close>.
\<close>

theorem complete_event_with_string_result_clears_text:
  \<open>JSON_parse ''{"status":"complete","result":"oops"}''
     = Some (Obj [(''status'', Str ''complete''), (''result'', Str ''oops'')])
   \<and> transcription (process_chunk JSON_parse (initial\<lparr>transcription := Str ''so far''\<rparr>)
        (''{"status":"complete","result":"oops"}'' @ [NL])) = Str []
   \<and> transcription (process_chunk JSON_parse (initial\<lparr>transcription := Str ''so far''\<rparr>)
        (''{"status":"complete","result":"oops"}'' @ [NL]))
     \<noteq> transcription (initial\<lparr>transcription := Str ''so far''\<rparr>)
   \<and> transcription (process_chunk JSON_parse (initial\<lparr>transcription := Str ''so far''\<rparr>)
        (''{"status":"complete","result":7}'' @ [NL])) = Str []
   \<and> transcription (process_chunk JSON_parse (initial\<lparr>transcription := Str ''so far''\<rparr>)
        (''{"status":"complete","result":true}'' @ [NL])) = Str []\<close>
  by code_simp

section \<open>Stopping the session\<close>

text \<open>
  What \<open>stopRecording\<close> achieves when the recorder of the ref is active: the interval
  whose id the ref holds is cleared before the handler returns, and a timeout is queued.
\<close>

lemma stop_clears_the_interval_of_the_ref:
  assumes "isRecording st" "recorder_active st" "processingIntervalRef st = Some tid"
  shows "map_of (intervals (click_stop st)) tid = None"
    and "processingIntervalRef (click_stop st) = None"
    and "idle_timeouts (click_stop st) = Suc (idle_timeouts st)"
    and "status (click_stop st) = ''processing''"
proof -
  from assms(2) obtain k where k: "mediaRecorderRef st = Some k" "k < length (recorders st)"
      "rec_state (recorders st ! k) \<noteq> Inactive"
    by (auto simp: recorder_active_def split: option.splits)
  have "map_of (clearInterval tid (intervals st)) tid = None"
    by (simp add: clearInterval_def map_of_eq_None_iff image_iff)
  with assms k show "map_of (intervals (click_stop st)) tid = None"
    by (simp add: click_stop_def stopRecording_def)
  from assms k show "processingIntervalRef (click_stop st) = None"
    by (simp add: click_stop_def stopRecording_def)
  from assms k show "idle_timeouts (click_stop st) = Suc (idle_timeouts st)"
    by (simp add: click_stop_def stopRecording_def)
  from assms k show "status (click_stop st) = ''processing''"
    by (simp add: click_stop_def stopRecording_def)
qed

lemma no_interval_step:
  assumes "intervals st = []" "getUserMedia_pending st = []" "ev \<noteq> ClickStart"
  shows "intervals (step parse ev st) = [] \<and> getUserMedia_pending (step parse ev st) = []
       \<and> periodic_issued (requests (step parse ev st)) = periodic_issued (requests st)"
proof (cases ev)
  case ClickStart
  with assms show ?thesis by simp
next
  case (MediaSettled k dev)
  with assms show ?thesis by (simp add: media_settled_def)
next
  case ClickStop
  with assms show ?thesis
    by (simp add: click_stop_def stopRecording_def clearInterval_def split: option.splits)
next
  case (DataAvailable k blob)
  with assms show ?thesis by (simp add: ondataavailable_def)
next
  case (Tick tid)
  with assms show ?thesis by (simp add: tick_def)
next
  case (RecorderEnded k)
  with assms show ?thesis by (simp add: recorder_ended_def)
next
  case StopEvent
  with assms show ?thesis
    by (cases "stop_events st")
       (simp_all add: recorder_onstop_def processAudioChunks_def settle_def periodic_issued_snoc)
next
  case IdleTimeout
  with assms show ?thesis by (simp add: idle_timeout_def)
next
  case (Net i nev)
  with assms show ?thesis by (simp add: on_net_fields)
qed

lemma no_request_without_interval:
  assumes "intervals st = []" "getUserMedia_pending st = []" "ClickStart \<notin> set later"
  shows "periodic_issued (requests (run parse later st)) = periodic_issued (requests st)"
  using assms
proof (induction later arbitrary: st)
  case Nil
  then show ?case by simp
next
  case (Cons ev later)
  then have ev: "ev \<noteq> ClickStart" and rest: "ClickStart \<notin> set later"
    by auto
  from no_interval_step [OF Cons.prems(1,2) ev, of parse]
  have a: "intervals (step parse ev st) = []"
    and b: "getUserMedia_pending (step parse ev st) = []"
    and c: "periodic_issued (requests (step parse ev st)) = periodic_issued (requests st)"
    by simp_all
  from Cons.IH [OF a b rest] c show ?case by simp
qed

lemma idle_timeouts_step:
  assumes "ev \<noteq> IdleTimeout"
  shows "idle_timeouts st \<le> idle_timeouts (step parse ev st)"
proof (cases ev)
  case ClickStart
  then show ?thesis by (simp add: click_start_def startRecording_begin_def)
next
  case (MediaSettled k dev)
  then show ?thesis
    by (cases dev) (simp_all add: media_settled_def startRecording_resume_def)
next
  case ClickStop
  then show ?thesis
    by (simp add: click_stop_def stopRecording_def split: option.splits)
next
  case (DataAvailable k blob)
  then show ?thesis by (simp add: ondataavailable_def)
next
  case (Tick tid)
  then show ?thesis
    by (simp add: tick_def processAudioChunks_def settle_def split: option.splits)
next
  case (RecorderEnded k)
  then show ?thesis by (simp add: recorder_ended_def)
next
  case StopEvent
  then show ?thesis
    by (cases "stop_events st") (simp_all add: recorder_onstop_def processAudioChunks_def settle_def)
next
  case IdleTimeout
  with assms show ?thesis by simp
next
  case (Net i nev)
  then show ?thesis by (simp add: on_net_fields)
qed

lemma idle_timeouts_run:
  assumes "IdleTimeout \<notin> set later"
  shows "idle_timeouts st \<le> idle_timeouts (run parse later st)"
  using assms
proof (induction later arbitrary: st)
  case Nil
  then show ?case by simp
next
  case (Cons ev later)
  then have "ev \<noteq> IdleTimeout" and "IdleTimeout \<notin> set later" by auto
  from idle_timeouts_step [OF this(1), of st parse] Cons.IH [OF this(2), of "step parse ev st"]
  show ?case by simp
qed

lemma idle_when_the_timeout_fires:
  assumes "0 < idle_timeouts st" "IdleTimeout \<notin> set later"
  shows "status (run parse (later @ [IdleTimeout]) st) = ''idle''"
proof -
  from idle_timeouts_run [OF assms(2), of st parse] assms(1)
  have "idle_timeouts (run parse later st) \<noteq> 0"
    by simp
  then show ?thesis
    by (simp add: run_append idle_timeout_def)
qed

lemma final_request_ends_idle:
  assumes "i < length (requests s)" "awaited (requests s ! i)"
  shows "phase (requests s ! i) = Fetching \<Longrightarrow> status (on_net parse i (FetchRejected e) s) = ''idle''"
    and "phase (requests s ! i) = Fetching \<Longrightarrow> \<not> response_ok code \<Longrightarrow>
           status (on_net parse i (Response code) s) = ''idle''"
    and "phase (requests s ! i) = Fetching \<Longrightarrow>
           status (on_net parse i (ResponseWithoutBody code e) s) = ''idle''"
    and "phase (requests s ! i) = Reading \<Longrightarrow> status (on_net parse i ReadDone s) = ''idle''"
    and "phase (requests s ! i) = Reading \<Longrightarrow> status (on_net parse i (ReadRejected e) s) = ''idle''"
proof -
  have aw: "\<And>e. awaited (requests (catch_block (closure (requests s ! i)) e s) ! i)"
    using assms(2) by (simp add: catch_block_fields)
  show "phase (requests s ! i) = Fetching \<Longrightarrow> status (on_net parse i (FetchRejected e) s) = ''idle''"
    using assms aw by (simp add: on_net_def finish_awaited_idle)
  show "phase (requests s ! i) = Fetching \<Longrightarrow> \<not> response_ok code \<Longrightarrow>
           status (on_net parse i (Response code) s) = ''idle''"
    using assms aw by (simp add: on_net_def finish_awaited_idle)
  show "phase (requests s ! i) = Fetching \<Longrightarrow>
           status (on_net parse i (ResponseWithoutBody code e) s) = ''idle''"
    using assms aw by (simp add: on_net_def finish_awaited_idle)
  show "phase (requests s ! i) = Reading \<Longrightarrow> status (on_net parse i ReadDone s) = ''idle''"
    using assms by (simp add: on_net_def finish_awaited_idle)
  show "phase (requests s ! i) = Reading \<Longrightarrow> status (on_net parse i (ReadRejected e) s) = ''idle''"
    using assms aw by (simp add: on_net_def finish_awaited_idle)
qed

text \<open>
  C4 fails on the code. \<open>stopRecording\<close> clears the one interval whose id is in the ref,
  and only when the recorder of the ref is active.

  First run: Start is clicked twice before \<open>getUserMedia\<close> settles (the button stays
  enabled until \<open>isRecording\<close> turns true). Both calls arm an interval, with ids 1 and 2,
  and the ref keeps 2. Stop clears interval 2 and empties the ref; interval 1 stays
  armed, and its two ticks after Stop issue two requests.

  Second run: the host stops the recorder by itself. Stop is still shown, but the test of
  \<open>stopRecording\<close> fails and the click changes nothing: the interval stays armed and
  issues a request, and the status is still \<open>recording\<close> while the request of \<open>onstop\<close>
  is in flight, with no timeout queued.
\<close>

theorem stop_leaves_an_interval_armed:
  "isRecording (run JSON_parse [ClickStart, ClickStart, MediaSettled 0 Granted,
       MediaSettled 0 Granted, DataAvailable 1 ''a''] initial)
   \<and> intervals (run JSON_parse [ClickStart, ClickStart, MediaSettled 0 Granted,
       MediaSettled 0 Granted, DataAvailable 1 ''a''] initial)
       = [(1, ProcessAudioChunks False), (2, ProcessAudioChunks False)]
   \<and> processingIntervalRef (run JSON_parse [ClickStart, ClickStart, MediaSettled 0 Granted,
       MediaSettled 0 Granted, DataAvailable 1 ''a'', ClickStop] initial) = None
   \<and> status (run JSON_parse [ClickStart, ClickStart, MediaSettled 0 Granted,
       MediaSettled 0 Granted, DataAvailable 1 ''a'', ClickStop] initial) = ''processing''
   \<and> intervals (run JSON_parse [ClickStart, ClickStart, MediaSettled 0 Granted,
       MediaSettled 0 Granted, DataAvailable 1 ''a'', ClickStop] initial)
       = [(1, ProcessAudioChunks False)]
   \<and> periodic_issued (requests (run JSON_parse [ClickStart, ClickStart, MediaSettled 0 Granted,
       MediaSettled 0 Granted, DataAvailable 1 ''a'', ClickStop] initial)) = 0
   \<and> periodic_issued (requests (run JSON_parse [ClickStart, ClickStart, MediaSettled 0 Granted,
       MediaSettled 0 Granted, DataAvailable 1 ''a'', ClickStop, Tick 1, Tick 1] initial)) = 2
   \<and> isRecording (run JSON_parse [ClickStart, MediaSettled 0 Granted, DataAvailable 0 ''a'',
       RecorderEnded 0] initial)
   \<and> run JSON_parse [ClickStart, MediaSettled 0 Granted, DataAvailable 0 ''a'',
       RecorderEnded 0, ClickStop] initial
     = run JSON_parse [ClickStart, MediaSettled 0 Granted, DataAvailable 0 ''a'',
       RecorderEnded 0] initial
   \<and> intervals (run JSON_parse [ClickStart, MediaSettled 0 Granted, DataAvailable 0 ''a'',
       RecorderEnded 0, ClickStop] initial) = [(1, ProcessAudioChunks False)]
   \<and> status (run JSON_parse [ClickStart, MediaSettled 0 Granted, DataAvailable 0 ''a'',
       RecorderEnded 0, ClickStop, StopEvent, Tick 1] initial) = ''recording''
   \<and> periodic_issued (requests (run JSON_parse [ClickStart, MediaSettled 0 Granted,
       DataAvailable 0 ''a'', RecorderEnded 0, ClickStop, StopEvent, Tick 1] initial)) = 1"
  by code_simp

section \<open>Starting the session\<close>

text \<open>
  C9. When the audio source cannot be acquired, \<open>startRecording\<close> puts the message of the
  failure in the error field, leaves the status \<open>idle\<close>, is not recording and arms no
  interval. When the source is acquired, the status is \<open>recording\<close>, the list of audio
  chunks is empty, and the transcription text and the error of the session before are
  cleared.
\<close>

theorem start_acquires_or_fails:
  assumes "status st = ''idle''"
  shows "status (startRecording (Refused e) st) = ''idle''
       \<and> error (startRecording (Refused e) st) = Str (message_of e)
       \<and> \<not> isRecording (startRecording (Refused e) st)
       \<and> processingIntervalRef (startRecording (Refused e) st) = processingIntervalRef st
       \<and> intervals (startRecording (Refused e) st) = intervals st
       \<and> status (startRecording Granted st) = ''recording''
       \<and> isRecording (startRecording Granted st)
       \<and> audioChunksRef (startRecording Granted st) = []
       \<and> transcription (startRecording Granted st) = Str []
       \<and> error (startRecording Granted st) = Null"
  using assms
  by (simp add: startRecording_def startRecording_begin_def startRecording_resume_def)

text \<open>
  Witness for C9: a component that still shows the text, the error and the audio of an
  earlier session.
\<close>

theorem start_acquires_or_fails_witness:
  "status (startRecording (Refused (ErrorObj ''Permission denied''))
      (initial\<lparr>transcription := Str ''before'', error := Str ''old'', audioChunksRef := [''a'']\<rparr>)) = ''idle''
   \<and> error (startRecording (Refused (ErrorObj ''Permission denied''))
      (initial\<lparr>transcription := Str ''before'', error := Str ''old'', audioChunksRef := [''a'']\<rparr>))
       = Str ''Permission denied''
   \<and> status (startRecording Granted
      (initial\<lparr>transcription := Str ''before'', error := Str ''old'', audioChunksRef := [''a'']\<rparr>))
       = ''recording''
   \<and> audioChunksRef (startRecording Granted
      (initial\<lparr>transcription := Str ''before'', error := Str ''old'', audioChunksRef := [''a'']\<rparr>)) = []
   \<and> transcription (startRecording Granted
      (initial\<lparr>transcription := Str ''before'', error := Str ''old'', audioChunksRef := [''a'']\<rparr>)) = Str []
   \<and> error (startRecording Granted
      (initial\<lparr>transcription := Str ''before'', error := Str ''old'', audioChunksRef := [''a'']\<rparr>)) = Null"
proof -
  have idle: "status (initial\<lparr>transcription := Str ''before'', error := Str ''old'', audioChunksRef := [''a'']\<rparr>)
              = ''idle''"
    by (simp add: initial_def)
  from start_acquires_or_fails [OF idle, of "ErrorObj ''Permission denied''"]
  show ?thesis by simp
qed

section \<open>Which events reach the observable state\<close>




text \<open>
  An event of status \<open>error\<close> sets the error field to its \<open>message\<close> on every request,
  wherever it stands in its read, as long as no other \<open>error\<close> event stands before it
  there.
\<close>

lemma error_event_is_surfaced_on_any_request:
  assumes "i < length (requests st)" and "phase (requests st ! i) = Reading"
    and "lines_of chunk = pre @ line # post"
    and "\<forall>l \<in> set pre. \<forall>d. parse l = Some d \<longrightarrow> \<not> is_error_event d"
    and "parse line = Some data" and "is_error_event data"
  shows "error (on_net parse i (ReadChunk chunk) st) = js_prop data ''message''"
proof -
  have "\<And>s. handle_data s data = (s\<lparr>error := js_prop data ''message''\<rparr>, True)"
    using assms(6) by (simp add: is_error_event_def handle_data_def)
  then have "\<And>s. process_lines parse s (line # post) = s\<lparr>error := js_prop data ''message''\<rparr>"
    using assms(5) by (simp add: handle_line_def)
  with process_lines_append [OF assms(4), of st "line # post"]
  have "process_lines parse st (pre @ line # post)
        = (process_lines parse st pre)\<lparr>error := js_prop data ''message''\<rparr>"
    by simp
  with assms(1,2,3) show ?thesis
    by (simp add: on_net_def process_chunk_def)
qed

text \<open>
  C5 fails on the code. The \<open>catch\<close> block of the same function tests \<open>isRecording\<close> so as
  not to set the error during recording; the branch for an event of status \<open>error\<close> calls
  \<open>setError\<close> with no test at all. The session is recording, request 0 was issued by the
  interval, and its \<open>error\<close> event turns the error field from \<open>null\<close> to \<open>boom\<close>.
\<close>

theorem periodic_error_event_is_surfaced:
  "isRecording (run JSON_parse [ClickStart, MediaSettled 0 Granted, DataAvailable 0 ''a'', Tick 1,
       Net 0 (Response 200), Net 0 (ReadChunk (error_line ''boom'' @ [NL]))] initial)
   \<and> \<not> awaited (requests (run JSON_parse [ClickStart, MediaSettled 0 Granted, DataAvailable 0 ''a'',
       Tick 1, Net 0 (Response 200), Net 0 (ReadChunk (error_line ''boom'' @ [NL]))] initial) ! 0)
   \<and> error (run JSON_parse [ClickStart, MediaSettled 0 Granted, DataAvailable 0 ''a'', Tick 1,
       Net 0 (Response 200)] initial) = Null
   \<and> error (run JSON_parse [ClickStart, MediaSettled 0 Granted, DataAvailable 0 ''a'', Tick 1,
       Net 0 (Response 200), Net 0 (ReadChunk (error_line ''boom'' @ [NL]))] initial) = Str ''boom''"
  by code_simp

text \<open>
  C6, as the code has it. The end of a response stream is a normal end of the read loop:
  it changes neither the error field nor the transcription text, on any request and
  whatever the stream has carried before.
\<close>

theorem end_of_stream_changes_no_outcome:
  "error (on_net parse i ReadDone st) = error st
   \<and> transcription (on_net parse i ReadDone st) = transcription st
   \<and> read_loop parse st [] = st"
  by (cases "phase (requests st ! i)") (simp_all add: on_net_def finish_fields)

text \<open>
  Witness for C6 as amended: the stream of a final request ends after a \<open>processing\<close>
  event only.
\<close>

theorem end_of_stream_changes_no_outcome_witness:
  "error (on_net JSON_parse 0 ReadDone
      (run JSON_parse [ClickStart, MediaSettled 0 Granted, DataAvailable 0 ''a'', ClickStop, StopEvent,
         Net 0 (Response 200), Net 0 (ReadChunk (processing_line @ [NL]))] initial)) = Null"
proof -
  have "error (run JSON_parse [ClickStart, MediaSettled 0 Granted, DataAvailable 0 ''a'', ClickStop,
         StopEvent, Net 0 (Response 200), Net 0 (ReadChunk (processing_line @ [NL]))] initial) = Null"
    by code_simp
  with end_of_stream_changes_no_outcome [of JSON_parse 0
      "run JSON_parse [ClickStart, MediaSettled 0 Granted, DataAvailable 0 ''a'', ClickStop, StopEvent,
         Net 0 (Response 200), Net 0 (ReadChunk (processing_line @ [NL]))] initial"]
  show ?thesis by simp
qed

text \<open>
  Counterexample to C6 as stated: the final request answers 200, sends one \<open>processing\<close>
  event and ends; the invocation is settled, the status is \<open>idle\<close>, and the error field is
  still \<open>null\<close>.
\<close>

theorem final_stream_without_terminal_event:
  "awaited (requests (run JSON_parse [ClickStart, MediaSettled 0 Granted, DataAvailable 0 ''a'',
       ClickStop, StopEvent, Net 0 (Response 200), Net 0 (ReadChunk (processing_line @ [NL])),
       Net 0 ReadDone] initial) ! 0)
   \<and> phase (requests (run JSON_parse [ClickStart, MediaSettled 0 Granted, DataAvailable 0 ''a'',
       ClickStop, StopEvent, Net 0 (Response 200), Net 0 (ReadChunk (processing_line @ [NL])),
       Net 0 ReadDone] initial) ! 0) = Settled
   \<and> error (run JSON_parse [ClickStart, MediaSettled 0 Granted, DataAvailable 0 ''a'',
       ClickStop, StopEvent, Net 0 (Response 200), Net 0 (ReadChunk (processing_line @ [NL])),
       Net 0 ReadDone] initial) = Null
   \<and> status (run JSON_parse [ClickStart, MediaSettled 0 Granted, DataAvailable 0 ''a'',
       ClickStop, StopEvent, Net 0 (Response 200), Net 0 (ReadChunk (processing_line @ [NL])),
       Net 0 ReadDone] initial) = ''idle''"
  by code_simp

section \<open>Transport failures of a periodic request\<close>

text \<open>
  C3 fails on the code. The \<open>catch\<close> block tests \<open>isRecording\<close> so as not to set the
  error during recording, but the interval calls the \<open>processAudioChunks\<close> of the render in
  which Start was clicked, where \<open>isRecording\<close> is false. While the session is recording,
  a rejected \<open>fetch\<close> of the request of a tick, and a response of status 500, each put
  their message in the error field.
\<close>

theorem periodic_transport_failure_is_surfaced:
  "isRecording (run JSON_parse [ClickStart, MediaSettled 0 Granted, DataAvailable 0 ''a'', Tick 1,
       Net 0 (FetchRejected (ErrorObj ''Failed to fetch''))] initial)
   \<and> status (run JSON_parse [ClickStart, MediaSettled 0 Granted, DataAvailable 0 ''a'', Tick 1,
       Net 0 (FetchRejected (ErrorObj ''Failed to fetch''))] initial) = ''recording''
   \<and> \<not> awaited (requests (run JSON_parse [ClickStart, MediaSettled 0 Granted,
       DataAvailable 0 ''a'', Tick 1] initial) ! 0)
   \<and> closure (requests (run JSON_parse [ClickStart, MediaSettled 0 Granted,
       DataAvailable 0 ''a'', Tick 1] initial) ! 0) = ProcessAudioChunks False
   \<and> error (run JSON_parse [ClickStart, MediaSettled 0 Granted, DataAvailable 0 ''a'', Tick 1] initial)
       = Null
   \<and> error (run JSON_parse [ClickStart, MediaSettled 0 Granted, DataAvailable 0 ''a'', Tick 1,
       Net 0 (FetchRejected (ErrorObj ''Failed to fetch''))] initial) = Str ''Failed to fetch''
   \<and> error (run JSON_parse [ClickStart, MediaSettled 0 Granted, DataAvailable 0 ''a'', Tick 1,
       Net 0 (Response 500)] initial) = Str ''HTTP error! status: 500''"
  by code_simp

end
